theory Spec2Isabelle
  imports Main
begin

section \<open>The credential store of \<^verbatim>\<open>auth/credential_store.go\<close>\<close>

text \<open>
  Go strings are modelled as \<^typ>\<open>string\<close>, Go maps as partial functions, a method that
  writes to its receiver as a function that returns the receiver's new value. The
  reader/writer lock of the hash cache is not modelled: every operation below is one
  uninterrupted call. The fields of \<^verbatim>\<open>CredentialsStore\<close> other than \<^verbatim>\<open>UseCache\<close> are
  unexported, so a store is one built by \<^verbatim>\<open>NewCredentialsStore\<close>: its maps and its
  hash cache are allocated.
\<close>

subsection \<open>Constants\<close>

definition AllUsers :: string where
  "AllUsers = ''*''"

definition PermAll :: string where
  "PermAll = ''all''"

definition PermRemove :: string where
  "PermRemove = ''remove''"

definition PermExecute :: string where
  "PermExecute = ''execute''"

definition PermQuery :: string where
  "PermQuery = ''query''"

definition PermStatus :: string where
  "PermStatus = ''status''"

definition PermReady :: string where
  "PermReady = ''ready''"

definition PermBackup :: string where
  "PermBackup = ''backup''"

definition PermLoad :: string where
  "PermLoad = ''load''"

subsection \<open>HashCache\<close>

text \<open>
  \<^verbatim>\<open>m map[string]map[string]struct{}\<close>: for each username the set of hashes recorded
  for it, a set being a map to the empty struct.
\<close>

type_synonym HashCache = "string \<rightharpoonup> (string \<rightharpoonup> unit)"

definition NewHashCache :: HashCache where
  "NewHashCache = Map.empty"

definition HashCache_Check :: "HashCache \<Rightarrow> string \<Rightarrow> string \<Rightarrow> bool" where
  "HashCache_Check h username hash =
     (case h username of
        None \<Rightarrow> False
      | Some m \<Rightarrow> (case m hash of None \<Rightarrow> False | Some u \<Rightarrow> True))"

text \<open>
  \<^verbatim>\<open>Store\<close> first allocates the inner map when the username has none, then inserts the
  hash. After the first step the username always has an inner map, so the \<open>None\<close> branch
  of the second step is never taken.
\<close>

definition HashCache_Store :: "HashCache \<Rightarrow> string \<Rightarrow> string \<Rightarrow> HashCache" where
  "HashCache_Store h username hash =
     (let h1 = (case h username of None \<Rightarrow> h(username \<mapsto> Map.empty) | Some m \<Rightarrow> h)
      in case h1 username of
           None \<Rightarrow> h1
         | Some m \<Rightarrow> h1(username \<mapsto> m(hash \<mapsto> ())))"

subsection \<open>Credential and CredentialsStore\<close>

record Credential =
  Username :: string
  Password :: string
  Perms :: "string list"

record CredentialsStore =
  store :: "string \<rightharpoonup> string"
  perms :: "string \<rightharpoonup> (string \<rightharpoonup> bool)"
  UseCache :: bool
  hashCache :: HashCache

definition NewCredentialsStore :: CredentialsStore where
  "NewCredentialsStore =
     \<lparr>store = Map.empty, perms = Map.empty, UseCache = True, hashCache = NewHashCache\<rparr>"

subsection \<open>Load\<close>

text \<open>
  \<^verbatim>\<open>Load\<close> drives a \<^verbatim>\<open>json.Decoder\<close> of the standard library over the reader. What
  \<^verbatim>\<open>Load\<close> sees of it is the result of each call, and that is the input of the model:
  the result of the first \<^verbatim>\<open>dec.Token()\<close>, then one entry for each turn of the loop
  \<^verbatim>\<open>for dec.More()\<close>, then the result of the last \<^verbatim>\<open>dec.Token()\<close>, which is only
  called when the loop ran to its end.

  The entry of a turn is the error of \<^verbatim>\<open>dec.Decode(&cred)\<close>, or the JSON object that
  the call decodes. \<^verbatim>\<open>Decode\<close> writes into \<^verbatim>\<open>cred\<close> the fields that the object spells
  out and leaves the others as they are; an object is modelled by what it makes
  \<^verbatim>\<open>Decode\<close> store in each field, \<open>None\<close> for a field that it leaves alone.
\<close>

datatype error = Err string

record Object =
  username_field :: "string option"
  password_field :: "string option"
  perms_field :: "string list option"

record Decoder =
  open_token :: "error option"
  elements :: "(error + Object) list"
  close_token :: "error option"

definition Decode :: "Credential \<Rightarrow> Object \<Rightarrow> Credential" where
  "Decode cred obj =
     \<lparr>Username = (case username_field obj of None \<Rightarrow> Username cred | Some u \<Rightarrow> u),
      Password = (case password_field obj of None \<Rightarrow> Password cred | Some p \<Rightarrow> p),
      Perms = (case perms_field obj of None \<Rightarrow> Perms cred | Some ps \<Rightarrow> ps)\<rparr>"

text \<open>The inner loop \<^verbatim>\<open>for _, p := range cred.Perms { c.perms[cred.Username][p] = true }\<close>.\<close>

fun set_perms :: "(string \<rightharpoonup> bool) \<Rightarrow> string list \<Rightarrow> (string \<rightharpoonup> bool)" where
  "set_perms m [] = m"
| "set_perms m (p # ps) = set_perms (m(p \<mapsto> True)) ps"

text \<open>The three assignments of the loop body, for the value that \<^verbatim>\<open>cred\<close> holds.\<close>

definition load_cred :: "CredentialsStore \<Rightarrow> Credential \<Rightarrow> CredentialsStore" where
  "load_cred c cred =
     c\<lparr>store := (store c)(Username cred \<mapsto> Password cred),
       perms := (perms c)(Username cred \<mapsto> set_perms Map.empty (Perms cred))\<rparr>"

text \<open>
  \<^verbatim>\<open>var cred Credential\<close> is declared once, before the loop: the loop carries its value
  from one turn to the next. It starts as the zero value of the struct.
\<close>

definition zero_Credential :: Credential where
  "zero_Credential = \<lparr>Username = '''', Password = '''', Perms = []\<rparr>"

fun Load_loop ::
  "CredentialsStore \<Rightarrow> Credential \<Rightarrow> (error + Object) list
     \<Rightarrow> error option \<times> CredentialsStore" where
  "Load_loop c cred [] = (None, c)"
| "Load_loop c cred (Inl err # rest) = (Some err, c)"
| "Load_loop c cred (Inr obj # rest) =
     Load_loop (load_cred c (Decode cred obj)) (Decode cred obj) rest"

definition Load :: "CredentialsStore \<Rightarrow> Decoder \<Rightarrow> error option \<times> CredentialsStore" where
  "Load c dec =
     (case open_token dec of
        Some err \<Rightarrow> (Some err, c)
      | None \<Rightarrow>
          (case Load_loop c zero_Credential (elements dec) of
             (Some err, c') \<Rightarrow> (Some err, c')
           | (None, c') \<Rightarrow>
               (case close_token dec of
                  Some err \<Rightarrow> (Some err, c')
                | None \<Rightarrow> (None, c'))))"

text \<open>
  \<^verbatim>\<open>NewCredentialsStoreFromFile\<close>: the argument is the result of \<^verbatim>\<open>os.Open\<close>. When the
  file opens, the new store is returned together with the error of \<^verbatim>\<open>Load\<close>.
\<close>

definition NewCredentialsStoreFromFile ::
  "error + Decoder \<Rightarrow> CredentialsStore option \<times> error option" where
  "NewCredentialsStoreFromFile f =
     (case f of
        Inl err \<Rightarrow> (None, Some err)
      | Inr dec \<Rightarrow> (case Load NewCredentialsStore dec of (e, c) \<Rightarrow> (Some c, e)))"

subsection \<open>Queries\<close>

text \<open>
  \<^verbatim>\<open>bcrypt.CompareHashAndPassword\<close> belongs to an external package. It is a parameter
  \<open>compare\<close> of the model: \<open>compare pw password\<close> holds when the call
  \<^verbatim>\<open>bcrypt.CompareHashAndPassword([]byte(pw), []byte(password))\<close> returns \<^verbatim>\<open>nil\<close>.
\<close>

definition Check ::
  "(string \<Rightarrow> string \<Rightarrow> bool) \<Rightarrow> CredentialsStore \<Rightarrow> string \<Rightarrow> string
     \<Rightarrow> bool \<times> CredentialsStore" where
  "Check compare c username password =
     (case store c username of
        None \<Rightarrow> (False, c)
      | Some pw \<Rightarrow>
          if password = pw then (True, c)
          else if UseCache c \<and> HashCache_Check (hashCache c) username password then (True, c)
          else if \<not> compare pw password then (False, c)
          else (True, c\<lparr>hashCache := HashCache_Store (hashCache c) username password\<rparr>))"

text \<open>\<^verbatim>\<open>Password\<close>: a missing key reads as the empty string and \<^verbatim>\<open>false\<close>.\<close>

definition Password_of :: "CredentialsStore \<Rightarrow> string \<Rightarrow> string \<times> bool" where
  "Password_of c username =
     (case store c username of None \<Rightarrow> ('''', False) | Some pw \<Rightarrow> (pw, True))"

text \<open>
  A \<^verbatim>\<open>BasicAuther\<close> is used only through one call of \<^verbatim>\<open>BasicAuth()\<close>; it is modelled by
  the triple that the call returns.
\<close>

type_synonym BasicAuther = "string \<times> string \<times> bool"

definition CheckRequest ::
  "(string \<Rightarrow> string \<Rightarrow> bool) \<Rightarrow> CredentialsStore \<Rightarrow> BasicAuther
     \<Rightarrow> bool \<times> CredentialsStore" where
  "CheckRequest compare c b =
     (case b of (username, password, ok) \<Rightarrow>
        if \<not> ok then (False, c)
        else (case Check compare c username password of
                (r, c') \<Rightarrow> if \<not> r then (False, c') else (True, c')))"

definition HasPerm :: "CredentialsStore \<Rightarrow> string \<Rightarrow> string \<Rightarrow> bool" where
  "HasPerm c username perm =
     (if (case perms c username of
            None \<Rightarrow> False
          | Some m \<Rightarrow> (case m perm of None \<Rightarrow> False | Some v \<Rightarrow> True))
      then True
      else if (case perms c AllUsers of
                 None \<Rightarrow> False
               | Some m \<Rightarrow> (case m perm of None \<Rightarrow> False | Some v \<Rightarrow> True))
      then True
      else False)"

fun HasAnyPerm :: "CredentialsStore \<Rightarrow> string \<Rightarrow> string list \<Rightarrow> bool" where
  "HasAnyPerm c username [] = False"
| "HasAnyPerm c username (p # ps) =
     (if HasPerm c username p then True else HasAnyPerm c username ps)"

text \<open>
  \<^verbatim>\<open>AA\<close> has a pointer receiver that may be \<^verbatim>\<open>nil\<close>: the store is an option. The store
  is returned as \<^verbatim>\<open>Check\<close> left it.
\<close>

definition AA ::
  "(string \<Rightarrow> string \<Rightarrow> bool) \<Rightarrow> CredentialsStore option \<Rightarrow> string \<Rightarrow> string \<Rightarrow> string
     \<Rightarrow> bool \<times> CredentialsStore option" where
  "AA compare copt username password perm =
     (case copt of
        None \<Rightarrow> (True, None)
      | Some c \<Rightarrow>
          if HasAnyPerm c AllUsers [perm, PermAll] then (True, Some c)
          else if username = '''' then (False, Some c)
          else (case Check compare c username password of
                  (ok, c') \<Rightarrow>
                    if \<not> ok then (False, Some c')
                    else (HasAnyPerm c' username [perm, PermAll], Some c')))"

definition HasPermRequest :: "CredentialsStore \<Rightarrow> BasicAuther \<Rightarrow> string \<Rightarrow> bool" where
  "HasPermRequest c b perm =
     (case b of (username, password, ok) \<Rightarrow>
        if \<not> ok then False else HasPerm c username perm)"

subsection \<open>Notions used to state the properties\<close>

text \<open>
  \<open>holds c u perm\<close>: the permission set that the store has for \<open>u\<close> contains \<open>perm\<close>
  (a permission is in the set when it is a key of the inner map).
\<close>

definition holds :: "CredentialsStore \<Rightarrow> string \<Rightarrow> string \<Rightarrow> bool" where
  "holds c u perm = (case perms c u of None \<Rightarrow> False | Some m \<Rightarrow> perm \<in> dom m)"

text \<open>The objects that the loop of \<^verbatim>\<open>Load\<close> decodes before the first error.\<close>

fun objects_before_error :: "(error + Object) list \<Rightarrow> Object list" where
  "objects_before_error [] = []"
| "objects_before_error (Inl err # rest) = []"
| "objects_before_error (Inr obj # rest) = obj # objects_before_error rest"

text \<open>The values that \<^verbatim>\<open>cred\<close> takes while a list of objects is decoded into it.\<close>

fun decoded_creds :: "Credential \<Rightarrow> Object list \<Rightarrow> Credential list" where
  "decoded_creds cred [] = []"
| "decoded_creds cred (obj # objs) = Decode cred obj # decoded_creds (Decode cred obj) objs"

text \<open>A sequence of calls of \<^verbatim>\<open>HashCache.Store\<close>, and one of \<^verbatim>\<open>CredentialsStore.Check\<close>.\<close>

fun Store_all :: "HashCache \<Rightarrow> (string \<times> string) list \<Rightarrow> HashCache" where
  "Store_all h [] = h"
| "Store_all h ((u, x) # calls) = Store_all (HashCache_Store h u x) calls"

fun Check_all ::
  "(string \<Rightarrow> string \<Rightarrow> bool) \<Rightarrow> CredentialsStore \<Rightarrow> (string \<times> string) list
     \<Rightarrow> CredentialsStore" where
  "Check_all compare c [] = c"
| "Check_all compare c ((u, p) # qs) = Check_all compare (snd (Check compare c u p)) qs"

subsection \<open>Concrete inputs\<close>

text \<open>
  Two comparison functions for concrete runs. \<open>compare_none\<close> accepts nothing, as
  bcrypt does when the stored value is no bcrypt hash. \<open>compare_one\<close> accepts one pair
  and nothing else: \<open>bob_hash\<close>, which is the bcrypt hash of the password
  \<^verbatim>\<open>allmine\<close> with cost 10 and salt \<^verbatim>\<open>XajjQvNhvvRt5GSeFk1xFe\<close>, and that password.
\<close>

definition compare_none :: "string \<Rightarrow> string \<Rightarrow> bool" where
  "compare_none pw password = False"

definition bob_hash :: string where
  "bob_hash = ''$2a$10$XajjQvNhvvRt5GSeFk1xFeyqRrsxkhBkUiQeg0dt.wU1qD4aFDcga''"

definition compare_one :: "string \<Rightarrow> string \<Rightarrow> bool" where
  "compare_one pw password = (pw = bob_hash \<and> password = ''allmine'')"

definition cred_alice :: Credential where
  "cred_alice = \<lparr>Username = ''alice'', Password = ''secret'', Perms = [''query'']\<rparr>"

definition cred_alice_again :: Credential where
  "cred_alice_again = \<lparr>Username = ''alice'', Password = ''changed'', Perms = []\<rparr>"

definition cred_wildcard :: Credential where
  "cred_wildcard = \<lparr>Username = ''*'', Password = '''', Perms = [''status'']\<rparr>"

definition cred_bob :: Credential where
  "cred_bob = \<lparr>Username = ''bob'', Password = bob_hash, Perms = [''all'']\<rparr>"

definition cred_empty_name :: Credential where
  "cred_empty_name = \<lparr>Username = '''', Password = ''x'', Perms = [''query'']\<rparr>"

text \<open>The JSON object that spells out the three fields of a credential.\<close>

definition object_of :: "Credential \<Rightarrow> Object" where
  "object_of cred =
     \<lparr>username_field = Some (Username cred),
      password_field = Some (Password cred),
      perms_field = Some (Perms cred)\<rparr>"

text \<open>The JSON object \<^verbatim>\<open>{"username": "bob"}\<close>, which spells out a username only.\<close>

definition only_bob :: Object where
  "only_bob = \<lparr>username_field = Some ''bob'', password_field = None, perms_field = None\<rparr>"

text \<open>
  A well-formed array in which every element spells out its three fields, and the store
  that \<^verbatim>\<open>Load\<close> makes of it.
\<close>

definition array_of :: "Credential list \<Rightarrow> Decoder" where
  "array_of crs =
     \<lparr>open_token = None, elements = map (\<lambda>cred. Inr (object_of cred)) crs, close_token = None\<rparr>"

definition loaded :: "Credential list \<Rightarrow> CredentialsStore" where
  "loaded crs = snd (Load NewCredentialsStore (array_of crs))"

text \<open>A well-formed array whose second element leaves out the password and the perms.\<close>

definition alice_then_only_bob :: Decoder where
  "alice_then_only_bob =
     \<lparr>open_token = None, elements = [Inr (object_of cred_alice), Inr only_bob],
      close_token = None\<rparr>"

text \<open>An array whose second element is malformed.\<close>

definition malformed_second :: Decoder where
  "malformed_second =
     \<lparr>open_token = None,
      elements = [Inr (object_of cred_alice), Inl (Err ''invalid character'')],
      close_token = None\<rparr>"

text \<open>An input on which the first \<^verbatim>\<open>dec.Token()\<close> fails.\<close>

definition no_open_token :: Decoder where
  "no_open_token = \<lparr>open_token = Some (Err ''EOF''), elements = [], close_token = None\<rparr>"

lemmas run_defs =
  AllUsers_def PermAll_def NewHashCache_def HashCache_Check_def HashCache_Store_def
  NewCredentialsStore_def Decode_def zero_Credential_def load_cred_def Load_def
  NewCredentialsStoreFromFile_def Check_def Password_of_def CheckRequest_def HasPerm_def
  AA_def HasPermRequest_def holds_def compare_none_def compare_one_def bob_hash_def
  cred_alice_def cred_alice_again_def cred_wildcard_def cred_bob_def cred_empty_name_def
  object_of_def only_bob_def array_of_def loaded_def alice_then_only_bob_def
  malformed_second_def no_open_token_def Let_def

section \<open>Properties\<close>

subsection \<open>Auxiliary facts\<close>

lemma HasPerm_holds: "HasPerm c u perm \<longleftrightarrow> holds c u perm \<or> holds c AllUsers perm"
  by (auto simp: HasPerm_def holds_def split: option.splits)

lemma HashCache_Check_Store:
  "HashCache_Check (HashCache_Store h u x) u' x'
     \<longleftrightarrow> (u' = u \<and> x' = x) \<or> HashCache_Check h u' x'"
  by (auto simp: HashCache_Check_def HashCache_Store_def Let_def split: option.splits if_splits)

lemma HashCache_Check_New: "\<not> HashCache_Check NewHashCache u x"
  by (simp add: HashCache_Check_def NewHashCache_def)

lemma HashCache_Check_Store_all:
  "HashCache_Check (Store_all h calls) u x \<longleftrightarrow> HashCache_Check h u x \<or> (u, x) \<in> set calls"
  by (induction h calls rule: Store_all.induct) (auto simp: HashCache_Check_Store)

lemma Check_snd_cases:
  "snd (Check compare c u p) = c \<or>
   snd (Check compare c u p) = c\<lparr>hashCache := HashCache_Store (hashCache c) u p\<rparr>"
  by (auto simp: Check_def split: option.splits)

lemma Check_fst_iff:
  "fst (Check compare c u p) \<longleftrightarrow>
     (case store c u of
        None \<Rightarrow> False
      | Some pw \<Rightarrow>
          p = pw \<or> (UseCache c \<and> HashCache_Check (hashCache c) u p) \<or> compare pw p)"
  by (auto simp: Check_def split: option.splits)

lemma Check_frame:
  "snd (Check compare c u p) = c\<lparr>hashCache := hashCache (snd (Check compare c u p))\<rparr>"
  using Check_snd_cases [of compare c u p] by auto

lemma Check_store: "store (snd (Check compare c u p)) = store c"
  using Check_snd_cases [of compare c u p] by auto

lemma Check_perms: "perms (snd (Check compare c u p)) = perms c"
  using Check_snd_cases [of compare c u p] by auto

lemma Check_cache_mono:
  "HashCache_Check (hashCache c) u p \<Longrightarrow>
     HashCache_Check (hashCache (snd (Check compare c u' p'))) u p"
  using Check_snd_cases [of compare c u' p'] by (auto simp: HashCache_Check_Store)

lemma Check_all_frame:
  "store (Check_all compare c qs) = store c \<and>
   (HashCache_Check (hashCache c) u p \<longrightarrow>
      HashCache_Check (hashCache (Check_all compare c qs)) u p)"
proof (induction compare c qs rule: Check_all.induct)
  case (1 compare c)
  show ?case by simp
next
  case (2 compare c u' p' qs)
  with Check_cache_mono [of c u p compare u' p'] show ?case
    by (simp add: Check_store)
qed

lemma Load_loop_snd:
  "snd (Load_loop c cred xs) = foldl load_cred c (decoded_creds cred (objects_before_error xs))"
  by (induction c cred xs rule: Load_loop.induct) simp_all

lemma Load_loop_ok_all_Inr:
  "fst (Load_loop c cred xs) = None \<Longrightarrow> map Inr (objects_before_error xs) = xs"
  by (induction c cred xs rule: Load_loop.induct) simp_all

lemma Load_loop_objects:
  "Load_loop c cred (map Inr objs) = (None, foldl load_cred c (decoded_creds cred objs))"
  by (induction objs arbitrary: c cred) simp_all

lemma objects_before_error_map: "objects_before_error (map Inr objs) = objs"
  by (induction objs) simp_all

lemma Load_snd:
  "snd (Load c dec) =
     (case open_token dec of
        Some err \<Rightarrow> c
      | None \<Rightarrow>
          foldl load_cred c
            (decoded_creds zero_Credential (objects_before_error (elements dec))))"
  using Load_loop_snd [of c zero_Credential "elements dec"]
  by (auto simp: Load_def split: option.splits prod.splits)

lemma decoded_creds_append:
  "decoded_creds cred (pre @ objs)
     = decoded_creds cred pre @ decoded_creds (foldl Decode cred pre) objs"
  by (induction pre arbitrary: cred) simp_all

lemma decoded_creds_other:
  "\<forall>ob \<in> set objs. \<exists>u'. username_field ob = Some u' \<and> u' \<noteq> u \<Longrightarrow>
     \<forall>cr \<in> set (decoded_creds cred objs). Username cr \<noteq> u"
  by (induction objs arbitrary: cred) (auto simp: Decode_def)

lemma store_load_cred:
  "store (load_cred c cred) u =
     (if u = Username cred then Some (Password cred) else store c u)"
  by (simp add: load_cred_def)

lemma perms_load_cred:
  "perms (load_cred c cred) u =
     (if u = Username cred then Some (set_perms Map.empty (Perms cred)) else perms c u)"
  by (simp add: load_cred_def)

lemma foldl_load_cred_other:
  "\<forall>cr \<in> set crs. Username cr \<noteq> u \<Longrightarrow>
     store (foldl load_cred c crs) u = store c u \<and>
     perms (foldl load_cred c crs) u = perms c u"
  by (induction crs arbitrary: c) (auto simp: store_load_cred perms_load_cred)

lemma foldl_load_cred_last:
  "\<forall>cr \<in> set post. Username cr \<noteq> Username cred \<Longrightarrow>
     store (foldl load_cred c (pre @ cred # post)) (Username cred) = Some (Password cred) \<and>
     perms (foldl load_cred c (pre @ cred # post)) (Username cred)
       = Some (set_perms Map.empty (Perms cred))"
  by (simp add: foldl_load_cred_other store_load_cred perms_load_cred)

lemma dom_set_perms: "dom (set_perms m ps) = dom m \<union> set ps"
  by (induction ps arbitrary: m) auto

text \<open>
  What the loop leaves in the maps for an object that spells out its username and is
  followed only by objects that spell out another username.
\<close>

lemma foldl_load_cred_served:
  assumes objs: "objs = pre @ obj # post"
    and u: "username_field obj = Some u"
    and others: "\<forall>ob \<in> set post. \<exists>u'. username_field ob = Some u' \<and> u' \<noteq> u"
  shows "store (foldl load_cred c (decoded_creds cred objs)) u =
           Some (Password (Decode (foldl Decode cred pre) obj))"
    and "perms (foldl load_cred c (decoded_creds cred objs)) u =
           Some (set_perms Map.empty (Perms (Decode (foldl Decode cred pre) obj)))"
proof -
  let ?cr = "Decode (foldl Decode cred pre) obj"
  have name: "Username ?cr = u" using u by (simp add: Decode_def)
  have split: "decoded_creds cred objs
                 = decoded_creds cred pre @ ?cr # decoded_creds ?cr post"
    by (simp add: objs decoded_creds_append)
  from decoded_creds_other [OF others, of ?cr] name
  have "\<forall>cr \<in> set (decoded_creds ?cr post). Username cr \<noteq> Username ?cr" by simp
  from foldl_load_cred_last [OF this, of c "decoded_creds cred pre"] name split
  show "store (foldl load_cred c (decoded_creds cred objs)) u = Some (Password ?cr)"
    and "perms (foldl load_cred c (decoded_creds cred objs)) u =
           Some (set_perms Map.empty (Perms ?cr))"
    by simp_all
qed

subsection \<open>The decision order of AA\<close>

text \<open>
  Claim C1. \<^verbatim>\<open>AA(username, password, perm)\<close> decides in this order: a nil store gives
  true, before any permission is looked up; otherwise, when the wildcard identity holds
  \<open>perm\<close> or the all-permissions sentinel, true, with no authentication; otherwise an
  empty username gives false; otherwise a failed \<^verbatim>\<open>Check(username, password)\<close> gives
  false; otherwise the result is true exactly when the username, directly or through
  the wildcard, holds \<open>perm\<close> or the all-permissions sentinel.
\<close>

theorem AA_decision_order:
  "AA compare None username password perm = (True, None) \<and>
   fst (AA compare (Some c) username password perm) =
     (if holds c AllUsers perm \<or> holds c AllUsers PermAll then True
      else if username = '''' then False
      else if \<not> fst (Check compare c username password) then False
      else (holds c username perm \<or> holds c AllUsers perm
            \<or> holds c username PermAll \<or> holds c AllUsers PermAll))"
proof -
  have h: "holds (snd (Check compare c username password)) = holds c"
    by (intro ext) (simp add: holds_def Check_perms)
  show ?thesis
    by (simp add: AA_def HasPerm_holds h case_prod_beta)
qed

theorem AA_decision_order_witness:
  "AA compare_none None ''alice'' ''wrong'' ''query'' = (True, None) \<and>
   fst (AA compare_none (Some (loaded [cred_alice])) ''alice'' ''secret'' ''query'') \<and>
   \<not> fst (AA compare_none (Some (loaded [cred_alice])) ''alice'' ''wrong'' ''query'') \<and>
   \<not> fst (AA compare_none (Some (loaded [cred_alice])) ''alice'' ''secret'' ''remove'') \<and>
   fst (AA compare_none (Some (loaded [cred_wildcard])) '''' '''' ''status'') \<and>
   \<not> fst (AA compare_none (Some (loaded [cred_wildcard])) '''' '''' ''remove'')"
  using AA_decision_order
          [where compare = compare_none and username = "''alice''" and password = "''wrong''"
            and perm = "''query''" and c = "loaded [cred_alice]"]
    AA_decision_order
      [where compare = compare_none and username = "''alice''" and password = "''secret''"
        and perm = "''query''" and c = "loaded [cred_alice]"]
    AA_decision_order
      [where compare = compare_none and username = "''alice''" and password = "''secret''"
        and perm = "''remove''" and c = "loaded [cred_alice]"]
    AA_decision_order
      [where compare = compare_none and username = "''''" and password = "''''"
        and perm = "''status''" and c = "loaded [cred_wildcard]"]
    AA_decision_order
      [where compare = compare_none and username = "''''" and password = "''''"
        and perm = "''remove''" and c = "loaded [cred_wildcard]"]
  by (simp add: run_defs)

subsection \<open>The order of the tests in Check\<close>

text \<open>
  Claim C2. \<^verbatim>\<open>Check(username, password)\<close> tests in this order, stopping at the first
  that decides: an unknown username gives false; a password equal to the stored value
  gives true; only with \<^verbatim>\<open>UseCache\<close> set, a hit of the hash cache for the pair gives
  true; otherwise the hash comparison of the stored value with the password decides, and
  a success records the pair in the hash cache. A miss of the cache falls through to the
  comparison: a password that the comparison accepts is never refused.
\<close>

theorem Check_order:
  "(store c u = None \<longrightarrow> Check compare c u p = (False, c)) \<and>
   (store c u = Some pw \<longrightarrow> p = pw \<longrightarrow> Check compare c u p = (True, c)) \<and>
   (store c u = Some pw \<longrightarrow> p \<noteq> pw \<longrightarrow> UseCache c \<longrightarrow> HashCache_Check (hashCache c) u p \<longrightarrow>
      Check compare c u p = (True, c)) \<and>
   (store c u = Some pw \<longrightarrow> p \<noteq> pw \<longrightarrow>
    \<not> (UseCache c \<and> HashCache_Check (hashCache c) u p) \<longrightarrow>
      Check compare c u p =
        (if compare pw p
         then (True, c\<lparr>hashCache := HashCache_Store (hashCache c) u p\<rparr>)
         else (False, c)) \<and>
      (compare pw p \<longrightarrow> HashCache_Check (hashCache (snd (Check compare c u p))) u p)) \<and>
   (store c u = Some pw \<longrightarrow> compare pw p \<longrightarrow> fst (Check compare c u p))"
  by (auto simp: Check_def HashCache_Check_Store)

theorem Check_order_witness:
  "Check compare_one (loaded [cred_bob]) ''carol'' ''allmine'' = (False, loaded [cred_bob]) \<and>
   Check compare_one (loaded [cred_alice]) ''alice'' ''secret'' = (True, loaded [cred_alice]) \<and>
   Check compare_none (snd (Check compare_one (loaded [cred_bob]) ''bob'' ''allmine'')) ''bob'' ''allmine''
     = (True, snd (Check compare_one (loaded [cred_bob]) ''bob'' ''allmine'')) \<and>
   Check compare_one (loaded [cred_bob]) ''bob'' ''allmine''
     = (True, (loaded [cred_bob])
          \<lparr>hashCache := HashCache_Store (hashCache (loaded [cred_bob])) ''bob'' ''allmine''\<rparr>) \<and>
   Check compare_one (loaded [cred_bob]) ''bob'' ''wrong'' = (False, loaded [cred_bob])"
proof -
  let ?bob = "loaded [cred_bob]"
  let ?bob1 = "snd (Check compare_one ?bob ''bob'' ''allmine'')"
  have s: "store ?bob ''bob'' = Some bob_hash" "store ?bob ''carol'' = None"
    "UseCache ?bob" "\<not> HashCache_Check (hashCache ?bob) ''bob'' ''allmine''"
    "\<not> HashCache_Check (hashCache ?bob) ''bob'' ''wrong''"
    "store (loaded [cred_alice]) ''alice'' = Some ''secret''"
    by (simp_all add: run_defs)
  have s1: "store ?bob1 ''bob'' = Some bob_hash" "UseCache ?bob1"
    "HashCache_Check (hashCache ?bob1) ''bob'' ''allmine''"
    by (simp_all add: run_defs)
  have c: "compare_one bob_hash ''allmine''" "\<not> compare_one bob_hash ''wrong''"
    "''allmine'' \<noteq> bob_hash" "''wrong'' \<noteq> bob_hash"
    by (simp_all add: compare_one_def bob_hash_def)
  show ?thesis
    using s s1 c
      Check_order
        [where c = ?bob and u = "''carol''"
          and compare = compare_one and p = "''allmine''"]
      Check_order
        [where c = "loaded [cred_alice]" and u = "''alice''" and pw = "''secret''"
          and p = "''secret''" and compare = compare_one]
      Check_order
        [where c = ?bob1 and u = "''bob''" and pw = "bob_hash"
          and p = "''allmine''" and compare = compare_none]
      Check_order
        [where c = ?bob and u = "''bob''" and pw = "bob_hash"
          and p = "''allmine''" and compare = compare_one]
      Check_order
        [where c = ?bob and u = "''bob''" and pw = "bob_hash"
          and p = "''wrong''" and compare = compare_one]
    by simp
qed

subsection \<open>A failed Load\<close>

text \<open>
  Claim C3, as stated: after a failed \<^verbatim>\<open>Load\<close> no record of the failed stream can be
  observed through \<^verbatim>\<open>Check\<close>, \<^verbatim>\<open>Password\<close> or \<^verbatim>\<open>HasPerm\<close>. \<^verbatim>\<open>Load\<close> writes each
  credential into the maps of its receiver as soon as it is decoded and has nothing that
  undoes the writes, so this fails: when the second element of the array is malformed,
  \<^verbatim>\<open>Load\<close> returns the error and the first credential is in the store.
  \<^verbatim>\<open>NewCredentialsStoreFromFile\<close> returns that store next to the error.
\<close>

theorem Load_failure_counterexample:
  "fst (Load NewCredentialsStore malformed_second) = Some (Err ''invalid character'') \<and>
   fst (Check compare_none (snd (Load NewCredentialsStore malformed_second))
          ''alice'' ''secret'') \<and>
   Password_of (snd (Load NewCredentialsStore malformed_second)) ''alice''
     = (''secret'', True) \<and>
   HasPerm (snd (Load NewCredentialsStore malformed_second)) ''alice'' ''query'' \<and>
   fst (NewCredentialsStoreFromFile (Inr malformed_second))
     = Some (snd (Load NewCredentialsStore malformed_second)) \<and>
   snd (NewCredentialsStoreFromFile (Inr malformed_second)) = Some (Err ''invalid character'')"
  by (simp add: run_defs)

text \<open>
  Claim C3, amended. When \<^verbatim>\<open>Load\<close> fails at the first token, the store is as it was.
  When it fails later, what was decoded before the failure has been written into the
  store and is served: for an element decoded before the failure that spells out its
  username \<open>u\<close>, its password \<open>p\<close> and its permissions, and that is followed before the
  failure only by elements that spell out another username, \<^verbatim>\<open>Password(u)\<close> is
  \<open>(p, true)\<close>, \<^verbatim>\<open>Check(u, p)\<close> is true and \<^verbatim>\<open>HasPerm(u, perm)\<close> is true for each of
  its permissions. The store is the one that a successful \<^verbatim>\<open>Load\<close> of the elements before
  the failure alone would leave: nothing that follows the failure is in it.
  \<^verbatim>\<open>NewCredentialsStoreFromFile\<close> returns that store together with the error.
\<close>

theorem Load_failure_serves_prefix:
  assumes fail: "fst (Load c dec) = Some err"
  shows
    "(open_token dec \<noteq> None \<longrightarrow> snd (Load c dec) = c) \<and>
     (open_token dec = None \<longrightarrow>
      objects_before_error (elements dec) = pre @ obj # post \<longrightarrow>
      username_field obj = Some u \<longrightarrow> password_field obj = Some p \<longrightarrow>
      perms_field obj = Some ps \<longrightarrow>
      (\<forall>ob \<in> set post. \<exists>u'. username_field ob = Some u' \<and> u' \<noteq> u) \<longrightarrow>
        Password_of (snd (Load c dec)) u = (p, True) \<and>
        fst (Check compare (snd (Load c dec)) u p) \<and>
        (\<forall>perm \<in> set ps. HasPerm (snd (Load c dec)) u perm)) \<and>
     (open_token dec = None \<longrightarrow>
        Load c (dec\<lparr>elements := map Inr (objects_before_error (elements dec)),
                    close_token := None\<rparr>)
          = (None, snd (Load c dec))) \<and>
     (c = NewCredentialsStore \<longrightarrow>
        NewCredentialsStoreFromFile (Inr dec) = (Some (snd (Load c dec)), Some err))"
proof -
  let ?c' = "snd (Load c dec)"
  have first: "open_token dec \<noteq> None \<longrightarrow> ?c' = c"
    by (auto simp: Load_snd)
  have served: "Password_of ?c' u = (p, True) \<and> fst (Check compare ?c' u p) \<and>
        (\<forall>perm \<in> set ps. HasPerm ?c' u perm)"
    if op: "open_token dec = None"
      and objs: "objects_before_error (elements dec) = pre @ obj # post"
      and u: "username_field obj = Some u" and p: "password_field obj = Some p"
      and ps: "perms_field obj = Some ps"
      and others: "\<forall>ob \<in> set post. \<exists>u'. username_field ob = Some u' \<and> u' \<noteq> u"
  proof -
    from op have c': "?c' = foldl load_cred c
        (decoded_creds zero_Credential (objects_before_error (elements dec)))"
      by (simp add: Load_snd)
    from foldl_load_cred_served [OF objs u others, of c zero_Credential] p ps
    have st: "store ?c' u = Some p" and pm: "perms ?c' u = Some (set_perms Map.empty ps)"
      by (simp_all add: c' Decode_def)
    from st have 1: "Password_of ?c' u = (p, True)" by (simp add: Password_of_def)
    from st have 2: "fst (Check compare ?c' u p)" by (simp add: Check_fst_iff)
    from pm have 3: "\<forall>perm \<in> set ps. HasPerm ?c' u perm"
      by (simp add: HasPerm_holds holds_def dom_set_perms)
    from 1 2 3 show ?thesis by simp
  qed
  have prefix: "open_token dec = None \<longrightarrow>
        Load c (dec\<lparr>elements := map Inr (objects_before_error (elements dec)),
                    close_token := None\<rparr>)
          = (None, ?c')"
    by (simp add: Load_def Load_loop_objects Load_loop_snd case_prod_beta
             split: option.splits)
  have ctor: "c = NewCredentialsStore \<longrightarrow>
        NewCredentialsStoreFromFile (Inr dec) = (Some ?c', Some err)"
    using fail by (auto simp: NewCredentialsStoreFromFile_def case_prod_beta)
  from first served prefix ctor show ?thesis by blast
qed

theorem Load_failure_serves_prefix_witness:
  "fst (Load NewCredentialsStore malformed_second) = Some (Err ''invalid character'') \<and>
   Password_of (snd (Load NewCredentialsStore malformed_second)) ''alice''
     = (''secret'', True) \<and>
   fst (Check compare_none (snd (Load NewCredentialsStore malformed_second))
          ''alice'' ''secret'') \<and>
   HasPerm (snd (Load NewCredentialsStore malformed_second)) ''alice'' ''query'' \<and>
   NewCredentialsStoreFromFile (Inr malformed_second)
     = (Some (snd (Load NewCredentialsStore malformed_second)),
        Some (Err ''invalid character'')) \<and>
   fst (Load NewCredentialsStore no_open_token) = Some (Err ''EOF'') \<and>
   snd (Load NewCredentialsStore no_open_token) = NewCredentialsStore"
proof -
  have f: "fst (Load NewCredentialsStore malformed_second) = Some (Err ''invalid character'')"
    "fst (Load NewCredentialsStore no_open_token) = Some (Err ''EOF'')"
    by (simp_all add: Load_def malformed_second_def no_open_token_def)
  have h: "open_token malformed_second = None" "open_token no_open_token \<noteq> None"
    "objects_before_error (elements malformed_second) = [] @ object_of cred_alice # []"
    "username_field (object_of cred_alice) = Some ''alice''"
    "password_field (object_of cred_alice) = Some ''secret''"
    "perms_field (object_of cred_alice) = Some [''query'']"
    "\<forall>ob \<in> set []. \<exists>u'. username_field ob = Some u' \<and> u' \<noteq> ''alice''"
    by (simp_all add: malformed_second_def no_open_token_def object_of_def cred_alice_def)
  from f h
    Load_failure_serves_prefix
      [OF f(1), where pre = "[]" and obj = "object_of cred_alice" and post = "[]"
        and u = "''alice''" and p = "''secret''" and ps = "[''query'']"
        and compare = compare_none]
    Load_failure_serves_prefix
      [OF f(2), where pre = "[]" and obj = "object_of cred_alice" and post = "[]"
        and u = "''alice''" and p = "''secret''" and ps = "[''query'']"
        and compare = compare_none]
  show ?thesis by simp
qed

subsection \<open>Check after a successful Load\<close>

text \<open>
  Claim C4, as stated: for every credential \<open>(u, p, perms)\<close> consumed by a successful
  \<^verbatim>\<open>Load\<close>, \<^verbatim>\<open>Check(u, p)\<close> is true after the load. This fails in two ways. A later
  credential with the same username overwrites the stored password: after alice with
  the password \<^verbatim>\<open>secret\<close> and alice with the password \<^verbatim>\<open>changed\<close>, the first is
  refused. And an element that leaves a field out is stored with the value of the
  element before it: after alice with the password \<^verbatim>\<open>secret\<close> and
  \<^verbatim>\<open>{"username": "bob"}\<close>, a credential with no password, bob is stored with the
  password \<^verbatim>\<open>secret\<close> and the empty password is refused.
\<close>

theorem Load_then_Check_counterexample:
  "fst (Load NewCredentialsStore (array_of [cred_alice, cred_alice_again])) = None \<and>
   Inr (object_of cred_alice) \<in> set (elements (array_of [cred_alice, cred_alice_again])) \<and>
   \<not> fst (Check compare_none
            (snd (Load NewCredentialsStore (array_of [cred_alice, cred_alice_again])))
            (Username cred_alice) (Password cred_alice)) \<and>
   fst (Load NewCredentialsStore alice_then_only_bob) = None \<and>
   Inr only_bob \<in> set (elements alice_then_only_bob) \<and>
   Password_of (snd (Load NewCredentialsStore alice_then_only_bob)) ''bob''
     = (''secret'', True) \<and>
   \<not> fst (Check compare_none (snd (Load NewCredentialsStore alice_then_only_bob))
            ''bob'' '''')"
  by (simp add: run_defs)

text \<open>
  Claim C4, amended. For every element consumed by a successful \<^verbatim>\<open>Load\<close> that spells
  out its username \<open>u\<close> and its password \<open>p\<close> and is followed only by elements that
  spell out a username other than \<open>u\<close>, \<^verbatim>\<open>Check(u, p)\<close> is true after the load,
  whatever the hash comparison answers. (What is stored for an element that leaves its
  username or its password out is not part of the statement.)
\<close>

theorem Load_then_Check_last:
  assumes ok: "Load c dec = (None, c')"
    and pos: "elements dec = pre @ Inr obj # post"
    and u: "username_field obj = Some u"
    and p: "password_field obj = Some p"
    and last: "\<forall>ob. Inr ob \<in> set post \<longrightarrow> (\<exists>u'. username_field ob = Some u' \<and> u' \<noteq> u)"
  shows "fst (Check compare c' u p)"
proof -
  from ok have op: "open_token dec = None"
    and loop: "fst (Load_loop c zero_Credential (elements dec)) = None"
    by (auto simp: Load_def split: option.splits prod.splits)
  let ?objs = "objects_before_error (elements dec)"
  from Load_loop_ok_all_Inr [OF loop] pos
  have m: "map Inr ?objs = pre @ Inr obj # post" by simp
  then obtain pre' post' where objs: "?objs = pre' @ obj # post'"
    and post': "map Inr post' = post"
    by (auto simp: map_eq_append_conv map_eq_Cons_conv)
  from post' last
  have others: "\<forall>ob \<in> set post'. \<exists>u'. username_field ob = Some u' \<and> u' \<noteq> u" by auto
  from foldl_load_cred_served(1) [OF objs u others, of c zero_Credential] p
  have "store (foldl load_cred c (decoded_creds zero_Credential ?objs)) u = Some p"
    by (simp add: Decode_def)
  moreover from ok op have "c' = foldl load_cred c (decoded_creds zero_Credential ?objs)"
    using Load_snd [of c dec] by simp
  ultimately show ?thesis by (simp add: Check_fst_iff)
qed

theorem Load_then_Check_last_witness:
  "fst (Check compare_none (loaded [cred_alice, cred_bob, cred_alice_again]) ''bob''
          bob_hash) \<and>
   fst (Check compare_none (loaded [cred_alice, cred_bob, cred_alice_again]) ''alice''
          ''changed'') \<and>
   fst (Check compare_none (snd (Load NewCredentialsStore alice_then_only_bob)) ''alice''
          ''secret'')"
proof -
  let ?dec = "array_of [cred_alice, cred_bob, cred_alice_again]"
  let ?c = "loaded [cred_alice, cred_bob, cred_alice_again]"
  let ?c2 = "snd (Load NewCredentialsStore alice_then_only_bob)"
  have ok: "Load NewCredentialsStore ?dec = (None, ?c)"
    by (simp add: loaded_def Load_def array_of_def case_prod_beta Load_loop_objects)
  have ok2: "Load NewCredentialsStore alice_then_only_bob = (None, ?c2)"
    by (simp add: Load_def alice_then_only_bob_def case_prod_beta)
  have bob: "elements ?dec
      = [Inr (object_of cred_alice)] @ Inr (object_of cred_bob)
          # [Inr (object_of cred_alice_again)]"
    and alice: "elements ?dec
      = [Inr (object_of cred_alice), Inr (object_of cred_bob)]
          @ Inr (object_of cred_alice_again) # []"
    and alice2: "elements alice_then_only_bob
      = [] @ Inr (object_of cred_alice) # [Inr only_bob]"
    by (simp_all add: array_of_def alice_then_only_bob_def)
  have f: "username_field (object_of cred_bob) = Some ''bob''"
    "password_field (object_of cred_bob) = Some bob_hash"
    "username_field (object_of cred_alice_again) = Some ''alice''"
    "password_field (object_of cred_alice_again) = Some ''changed''"
    "username_field (object_of cred_alice) = Some ''alice''"
    "password_field (object_of cred_alice) = Some ''secret''"
    by (simp_all add: object_of_def cred_bob_def cred_alice_again_def cred_alice_def)
  have last_bob:
    "\<forall>ob. Inr ob \<in> set [Inr (object_of cred_alice_again)]
       \<longrightarrow> (\<exists>u'. username_field ob = Some u' \<and> u' \<noteq> ''bob'')"
    and last_alice:
    "\<forall>ob. Inr ob \<in> set [] \<longrightarrow> (\<exists>u'. username_field ob = Some u' \<and> u' \<noteq> ''alice'')"
    and last_alice2:
    "\<forall>ob. Inr ob \<in> set [Inr only_bob]
       \<longrightarrow> (\<exists>u'. username_field ob = Some u' \<and> u' \<noteq> ''alice'')"
    by (simp_all add: object_of_def cred_alice_again_def only_bob_def)
  from Load_then_Check_last [OF ok bob f(1) f(2) last_bob, where compare = compare_none]
    Load_then_Check_last [OF ok alice f(3) f(4) last_alice, where compare = compare_none]
    Load_then_Check_last [OF ok2 alice2 f(5) f(6) last_alice2, where compare = compare_none]
  show ?thesis by simp
qed

subsection \<open>HasPerm\<close>

text \<open>
  Claim C5. When the permission set of the wildcard identity contains \<open>perm\<close>,
  \<^verbatim>\<open>HasPerm(anyUser, perm)\<close> is true for every username, known to the store or not;
  when the permission set of a username contains \<open>perm\<close>, \<^verbatim>\<open>HasPerm(username, perm)\<close>
  is true. No password is checked: the result does not depend on the password map, on
  the hash cache or on \<^verbatim>\<open>UseCache\<close>.
\<close>

theorem HasPerm_wildcard_and_direct:
  "(holds c AllUsers perm \<longrightarrow> HasPerm c anyUser perm) \<and>
   (holds c username perm \<longrightarrow> HasPerm c username perm) \<and>
   HasPerm (c\<lparr>store := s, UseCache := b, hashCache := h\<rparr>) u perm = HasPerm c u perm"
  by (simp add: HasPerm_holds holds_def)

theorem HasPerm_wildcard_and_direct_witness:
  "store (loaded [cred_wildcard, cred_alice]) ''nobody'' = None \<and>
   HasPerm (loaded [cred_wildcard, cred_alice]) ''nobody'' ''status'' \<and>
   HasPerm (loaded [cred_wildcard, cred_alice]) ''alice'' ''query'' \<and>
   HasPerm ((loaded [cred_wildcard, cred_alice])
              \<lparr>store := Map.empty, UseCache := False, hashCache := NewHashCache\<rparr>)
     ''alice'' ''query''"
proof -
  let ?c = "loaded [cred_wildcard, cred_alice]"
  have h: "holds ?c AllUsers ''status''" "holds ?c ''alice'' ''query''"
    "store ?c ''nobody'' = None"
    by (simp_all add: run_defs)
  with HasPerm_wildcard_and_direct
         [where c = ?c and perm = "''status''" and anyUser = "''nobody''" and username = "''alice''"
            and s = Map.empty and b = False and h = NewHashCache and u = "''alice''"]
    HasPerm_wildcard_and_direct
         [where c = ?c and perm = "''query''" and anyUser = "''nobody''" and username = "''alice''"
            and s = Map.empty and b = False and h = NewHashCache and u = "''alice''"]
  show ?thesis by simp
qed

subsection \<open>AA with an empty username\<close>

text \<open>
  Claim C6. For every password and every \<open>perm\<close>, \<^verbatim>\<open>AA("", password, perm)\<close> on a store
  is false when the wildcard identity holds neither \<open>perm\<close> nor the all-permissions
  sentinel, also when a credential with an empty username was loaded.
\<close>

theorem AA_empty_username:
  "\<not> holds c AllUsers perm \<Longrightarrow> \<not> holds c AllUsers PermAll \<Longrightarrow>
     fst (AA compare (Some c) '''' password perm) = False"
  by (simp add: AA_def HasPerm_holds)

theorem AA_empty_username_witness:
  "fst (Check compare_none (loaded [cred_empty_name]) '''' ''x'') \<and>
   HasPerm (loaded [cred_empty_name]) '''' ''query'' \<and>
   fst (AA compare_none (Some (loaded [cred_empty_name])) '''' ''x'' ''query'') = False"
proof -
  let ?c = "loaded [cred_empty_name]"
  have h: "\<not> holds ?c AllUsers ''query''" "\<not> holds ?c AllUsers PermAll"
    by (simp_all add: run_defs)
  have "fst (Check compare_none ?c '''' ''x'')" "HasPerm ?c '''' ''query''"
    by (simp_all add: run_defs)
  with AA_empty_username [OF h, where compare = compare_none and password = "''x''"]
  show ?thesis by simp
qed

subsection \<open>Passwords that Check refuses\<close>

text \<open>
  Claim C7, as stated: \<^verbatim>\<open>Check(u, wrong)\<close> is false for every \<open>wrong\<close> that differs
  from the stored value of \<open>u\<close> and is no cached hash of \<open>u\<close>. When the stored value is
  a hash, the password it was made from differs from it, is not yet in the cache, and
  is accepted by the hash comparison.
\<close>

theorem Check_rejects_counterexample:
  "store (loaded [cred_bob]) ''bob'' = Some bob_hash \<and>
   ''allmine'' \<noteq> bob_hash \<and>
   \<not> HashCache_Check (hashCache (loaded [cred_bob])) ''bob'' ''allmine'' \<and>
   fst (Check compare_one (loaded [cred_bob]) ''bob'' ''allmine'')"
  by (simp add: run_defs)

text \<open>
  Claim C7, amended. \<^verbatim>\<open>Check(u, wrong)\<close> is false for every \<open>wrong\<close> that differs from
  the stored value of \<open>u\<close>, is no cached hash of \<open>u\<close> and is refused by the hash
  comparison with the stored value; and it is false for every unknown \<open>u\<close>.
\<close>

theorem Check_rejects:
  "(store c u = None \<longrightarrow> fst (Check compare c u wrong) = False) \<and>
   (store c u = Some pw \<longrightarrow> wrong \<noteq> pw \<longrightarrow> \<not> HashCache_Check (hashCache c) u wrong \<longrightarrow>
      \<not> compare pw wrong \<longrightarrow> fst (Check compare c u wrong) = False)"
  by (simp add: Check_fst_iff)

theorem Check_rejects_witness:
  "fst (Check compare_one (loaded [cred_bob]) ''carol'' ''allmine'') = False \<and>
   fst (Check compare_one (loaded [cred_bob]) ''bob'' ''wrong'') = False"
proof -
  let ?c = "loaded [cred_bob]"
  have h: "store ?c ''carol'' = None" "store ?c ''bob'' = Some bob_hash"
    "''wrong'' \<noteq> bob_hash" "\<not> HashCache_Check (hashCache ?c) ''bob'' ''wrong''"
    "\<not> compare_one bob_hash ''wrong''"
    by (simp_all add: run_defs)
  with Check_rejects
         [where c = ?c and u = "''carol''"
           and compare = compare_one and wrong = "''allmine''"]
    Check_rejects
      [where c = ?c and u = "''bob''" and compare = compare_one
        and wrong = "''wrong''" and pw = "bob_hash"]
  show ?thesis by simp
qed

subsection \<open>The hash cache\<close>

text \<open>
  Claim C8. On a new hash cache, \<^verbatim>\<open>HashCache.Check(username, candidate)\<close> is true exactly
  when \<^verbatim>\<open>HashCache.Store(username, candidate)\<close> was called before, and no call of
  \<^verbatim>\<open>Store\<close> removes an entry. So when \<^verbatim>\<open>CredentialsStore.Check(u, p)\<close> succeeds by the
  hash comparison, every later \<^verbatim>\<open>Check(u, p)\<close> on the store, after any other calls of
  \<^verbatim>\<open>Check\<close> and with \<^verbatim>\<open>UseCache\<close> set, finds the pair in the cache and succeeds
  whatever the hash comparison would answer.
\<close>

theorem HashCache_round_trip:
  "(HashCache_Check (Store_all NewHashCache calls) username candidate
      \<longleftrightarrow> (username, candidate) \<in> set calls) \<and>
   (HashCache_Check h username candidate
      \<longrightarrow> HashCache_Check (Store_all h calls) username candidate) \<and>
   (store c u = Some pw \<longrightarrow> p \<noteq> pw \<longrightarrow>
    \<not> (UseCache c \<and> HashCache_Check (hashCache c) u p) \<longrightarrow> compare pw p \<longrightarrow>
      HashCache_Check
        (hashCache ((Check_all compare (snd (Check compare c u p)) qs)\<lparr>UseCache := True\<rparr>))
        u p \<and>
      Check compare' ((Check_all compare (snd (Check compare c u p)) qs)\<lparr>UseCache := True\<rparr>)
        u p
        = (True, (Check_all compare (snd (Check compare c u p)) qs)\<lparr>UseCache := True\<rparr>))"
proof (intro conjI impI)
  show "HashCache_Check (Store_all NewHashCache calls) username candidate
          \<longleftrightarrow> (username, candidate) \<in> set calls"
    by (simp add: HashCache_Check_Store_all HashCache_Check_New)
next
  assume "HashCache_Check h username candidate"
  then show "HashCache_Check (Store_all h calls) username candidate"
    by (simp add: HashCache_Check_Store_all)
next
  assume a: "store c u = Some pw" "p \<noteq> pw"
    "\<not> (UseCache c \<and> HashCache_Check (hashCache c) u p)" "compare pw p"
  let ?c1 = "snd (Check compare c u p)"
  let ?c2 = "(Check_all compare ?c1 qs)\<lparr>UseCache := True\<rparr>"
  from a have c1: "?c1 = c\<lparr>hashCache := HashCache_Store (hashCache c) u p\<rparr>"
    by (auto simp: Check_def)
  then have "HashCache_Check (hashCache ?c1) u p" "store ?c1 = store c"
    by (simp_all add: HashCache_Check_Store)
  with Check_all_frame [of compare ?c1 qs u p]
  have c2: "HashCache_Check (hashCache ?c2) u p" "store ?c2 u = Some pw"
    using a(1) by simp_all
  show "HashCache_Check (hashCache ?c2) u p" by (rule c2)
  from c2 a(2) show "Check compare' ?c2 u p = (True, ?c2)"
    by (simp add: Check_def)
qed

theorem HashCache_round_trip_witness:
  "HashCache_Check (Store_all NewHashCache [(''bob'', ''allmine''), (''alice'', ''h'')]) ''bob'' ''allmine'' \<and>
   \<not> HashCache_Check (Store_all NewHashCache [(''bob'', ''allmine''), (''alice'', ''h'')]) ''bob'' ''h'' \<and>
   fst (Check compare_none
          ((Check_all compare_one (snd (Check compare_one (loaded [cred_bob]) ''bob'' ''allmine''))
              [(''bob'', ''wrong''), (''carol'', ''allmine'')])\<lparr>UseCache := True\<rparr>)
          ''bob'' ''allmine'')"
proof -
  let ?c = "loaded [cred_bob]"
  have h: "store ?c ''bob'' = Some bob_hash" "''allmine'' \<noteq> bob_hash"
    "\<not> (UseCache ?c \<and> HashCache_Check (hashCache ?c) ''bob'' ''allmine'')"
    "compare_one bob_hash ''allmine''"
    by (simp_all add: run_defs)
  with HashCache_round_trip
         [where calls = "[(''bob'', ''allmine''), (''alice'', ''h'')]" and username = "''bob''"
            and candidate = "''allmine''" and h = NewHashCache and c = ?c and u = "''bob''"
            and pw = "bob_hash" and p = "''allmine''" and compare = compare_one
            and qs = "[(''bob'', ''wrong''), (''carol'', ''allmine'')]" and compare' = compare_none]
    HashCache_round_trip
         [where calls = "[(''bob'', ''allmine''), (''alice'', ''h'')]" and username = "''bob''"
            and candidate = "''h''" and h = NewHashCache and c = ?c and u = "''bob''"
            and pw = "bob_hash" and p = "''allmine''" and compare = compare_one
            and qs = "[]" and compare' = compare_none]
  show ?thesis by simp
qed

subsection \<open>Requests without credentials\<close>

text \<open>
  Claim C9. For every request whose \<^verbatim>\<open>BasicAuth()\<close> reports no credentials (its third
  result is false), \<^verbatim>\<open>HasPermRequest(b, perm)\<close> is false for every \<open>perm\<close>, also when
  the wildcard identity holds \<open>perm\<close>, where \<^verbatim>\<open>HasPerm\<close> is true for any username.
\<close>

theorem HasPermRequest_no_credentials:
  "snd (snd b) = False \<Longrightarrow>
     HasPermRequest c b perm = False \<and> (holds c AllUsers perm \<longrightarrow> HasPerm c anyUser perm)"
  by (simp add: HasPermRequest_def HasPerm_holds case_prod_beta)

theorem HasPermRequest_no_credentials_witness:
  "holds (loaded [cred_wildcard]) AllUsers ''status'' \<and>
   HasPermRequest (loaded [cred_wildcard]) ('''', '''', False) ''status'' = False \<and>
   HasPerm (loaded [cred_wildcard]) '''' ''status''"
proof -
  let ?c = "loaded [cred_wildcard]"
  have b: "snd (snd ('''', '''', False)) = False" by simp
  have h: "holds ?c AllUsers ''status''" by (simp add: run_defs)
  with HasPermRequest_no_credentials [OF b, where c = ?c and perm = "''status''" and anyUser = "''''"]
  show ?thesis by simp
qed

subsection \<open>What the queries write\<close>

text \<open>
  Claim C10. \<^verbatim>\<open>UseCache\<close> gates the reading of the hash cache and not the writing: with
  \<^verbatim>\<open>UseCache\<close> off, a password that the hash comparison accepts is still recorded in the
  cache by \<^verbatim>\<open>Check\<close>, and one that it refuses is refused whatever the cache holds. No
  query changes the password map or the permission map: the store that \<^verbatim>\<open>Check\<close>,
  \<^verbatim>\<open>CheckRequest\<close> and \<^verbatim>\<open>AA\<close> leave differs from the one they were called on in the
  hash cache at most. (\<^verbatim>\<open>Password\<close>, \<^verbatim>\<open>HasPerm\<close>, \<^verbatim>\<open>HasAnyPerm\<close> and
  \<^verbatim>\<open>HasPermRequest\<close> contain no assignment to the store or to the cache, which is why
  their models return no store.)
\<close>

theorem queries_write_only_hashCache:
  "(store c u = Some pw \<longrightarrow> p \<noteq> pw \<longrightarrow> compare pw p \<longrightarrow> \<not> UseCache c \<longrightarrow>
      HashCache_Check (hashCache (snd (Check compare c u p))) u p) \<and>
   (store c u = Some pw \<longrightarrow> p \<noteq> pw \<longrightarrow> \<not> compare pw p \<longrightarrow> \<not> UseCache c \<longrightarrow>
      fst (Check compare c u p) = False) \<and>
   (\<exists>h. snd (Check compare c u p) = c\<lparr>hashCache := h\<rparr>) \<and>
   (\<exists>h. snd (CheckRequest compare c b) = c\<lparr>hashCache := h\<rparr>) \<and>
   (\<exists>h. snd (AA compare (Some c) u p perm) = Some (c\<lparr>hashCache := h\<rparr>)) \<and>
   snd (AA compare None u p perm) = None"
proof -
  let ?ex = "\<lambda>x. \<exists>h. x = c\<lparr>hashCache := h\<rparr>"
  have same: "?ex c"
    by (rule exI [where x = "hashCache c"]) simp
  have chk: "?ex (snd (Check compare c u' p'))" for u' p'
    by (rule exI [where x = "hashCache (snd (Check compare c u' p'))"]) (rule Check_frame)
  have aa: "snd (AA compare (Some c) u p perm) = Some c \<or>
            snd (AA compare (Some c) u p perm) = Some (snd (Check compare c u p))"
    by (simp add: AA_def case_prod_beta)
  have cr: "snd (CheckRequest compare c b) = c \<or>
            snd (CheckRequest compare c b) = snd (Check compare c (fst b) (fst (snd b)))"
    by (simp add: CheckRequest_def case_prod_beta)
  have first: "store c u = Some pw \<longrightarrow> p \<noteq> pw \<longrightarrow> compare pw p \<longrightarrow> \<not> UseCache c \<longrightarrow>
      HashCache_Check (hashCache (snd (Check compare c u p))) u p"
    by (auto simp: Check_def HashCache_Check_Store)
  have second: "store c u = Some pw \<longrightarrow> p \<noteq> pw \<longrightarrow> \<not> compare pw p \<longrightarrow> \<not> UseCache c \<longrightarrow>
      fst (Check compare c u p) = False"
    by (simp add: Check_fst_iff)
  have last: "snd (AA compare None u p perm) = None" by (simp add: AA_def)
  from aa same chk [of u p]
  have aa': "\<exists>h. snd (AA compare (Some c) u p perm) = Some (c\<lparr>hashCache := h\<rparr>)"
    by auto
  from cr same chk [of "fst b" "fst (snd b)"]
  have cr': "?ex (snd (CheckRequest compare c b))"
    by auto
  from first second chk [of u p] cr' aa' last show ?thesis by blast
qed

theorem queries_write_only_hashCache_witness:
  "\<not> UseCache ((loaded [cred_bob])\<lparr>UseCache := False\<rparr>) \<and>
   \<not> HashCache_Check (hashCache ((loaded [cred_bob])\<lparr>UseCache := False\<rparr>)) ''bob'' ''allmine'' \<and>
   HashCache_Check
     (hashCache (snd (Check compare_one ((loaded [cred_bob])\<lparr>UseCache := False\<rparr>) ''bob'' ''allmine'')))
     ''bob'' ''allmine'' \<and>
   store (snd (Check compare_one ((loaded [cred_bob])\<lparr>UseCache := False\<rparr>) ''bob'' ''allmine''))
     = store (loaded [cred_bob])"
proof -
  let ?c = "(loaded [cred_bob])\<lparr>UseCache := False\<rparr>"
  have h: "store ?c ''bob'' = Some bob_hash" "''allmine'' \<noteq> bob_hash"
    "compare_one bob_hash ''allmine''" "\<not> UseCache ?c"
    "\<not> HashCache_Check (hashCache ?c) ''bob'' ''allmine''"
    by (simp_all add: run_defs)
  from queries_write_only_hashCache
         [where c = ?c and u = "''bob''" and pw = "bob_hash" and p = "''allmine''"
            and compare = compare_one and b = "('''', '''', False)" and perm = "''q''"]
  obtain h' where
    "HashCache_Check (hashCache (snd (Check compare_one ?c ''bob'' ''allmine''))) ''bob'' ''allmine''"
    "snd (Check compare_one ?c ''bob'' ''allmine'') = ?c\<lparr>hashCache := h'\<rparr>"
    using h by auto
  then have "store (snd (Check compare_one ?c ''bob'' ''allmine'')) = store (loaded [cred_bob])"
    and "HashCache_Check (hashCache (snd (Check compare_one ?c ''bob'' ''allmine''))) ''bob'' ''allmine''"
    by simp_all
  with h show ?thesis by simp
qed

end
